theory Spec2Isabelle
  imports Main "HOL-Library.Word" "HOL-Library.Signed_Division"
begin

unbundle bit_operations_syntax

section \<open>The buzzer driver of the Orangutan LV-168 (OrangutanBuzzer.cpp)\<close>

text \<open>
  The target is an 8-bit AVR: \<open>unsigned char\<close> is 8 bits wide, \<open>int\<close> and
  \<open>unsigned int\<close> are 16 bits wide, \<open>long\<close> and \<open>unsigned long\<close> are 32 bits wide.
  Unsigned arithmetic is arithmetic on words; a conversion to a narrower unsigned type is
  \<open>ucast\<close>, which drops the high bits.
\<close>

type_synonym u8 = "8 word"
type_synonym u16 = "16 word"
type_synonym u32 = "32 word"

subsection \<open>Constants\<close>

definition F_CPU :: u32 where
  "F_CPU = 20000000"

definition TIMER1_OFF :: u8 where
  "TIMER1_OFF = 0x00"

definition TIMER1_CLK_1 :: u8 where
  "TIMER1_CLK_1 = 0x01"

definition TIMER1_CLK_8 :: u8 where
  "TIMER1_CLK_8 = 0x02"

text \<open>
  Modelled from the spec: \<open>DIV_BY_10\<close> is declared in OrangutanBuzzer.h, which is not
  among the sources. The spec calls it a reserved high bit of the frequency value, and the
  comment in \<open>playNote\<close> says it is the most significant bit of the 16-bit \<open>freq\<close>.
\<close>

definition DIV_BY_10 :: u16 where
  "DIV_BY_10 = push_bit 15 1"

text \<open>
  Modelled from the spec: \<open>SILENT_NOTE\<close> is declared in OrangutanBuzzer.h, which is not
  among the sources. The spec calls it the reserved silent note value, and the comment in
  \<open>playNote\<close> gives it as note 255.
\<close>

definition SILENT_NOTE :: u8 where
  "SILENT_NOTE = 0xFF"

text \<open>
  Bit positions of the device header \<open>avr/io.h\<close>: the buzzer pin is bit 2 of port B, the
  overflow interrupt enable is bit 0 of \<open>TIMSK1\<close>, the global interrupt enable is bit 7 of
  the status register.
\<close>

definition PB2 :: nat where
  "PB2 = 2"

definition TOIE1 :: nat where
  "TOIE1 = 0"

definition SREG_I :: nat where
  "SREG_I = 7"

subsection \<open>The state: the registers the driver writes, and its two globals\<close>

record mcu =
  SREG :: u8
  DDRB :: u8
  TCCR1A :: u8
  TCCR1B :: u8
  TCCR1C :: u8
  TCNT1 :: u16
  OCR1A :: u16
  OCR1B :: u16
  TIFR1 :: u8
  TIMSK1 :: u8
  buzzerTimeout :: u16
  buzzerFinished :: u8

text \<open>
  The state after reset: the I/O registers read zero and the C runtime has zeroed the two
  globals. A register holds the last value written to it.
\<close>

definition power_on :: mcu where
  "power_on = \<lparr> SREG = 0, DDRB = 0, TCCR1A = 0, TCCR1B = 0, TCCR1C = 0, TCNT1 = 0,
     OCR1A = 0, OCR1B = 0, TIFR1 = 0, TIMSK1 = 0, buzzerTimeout = 0, buzzerFinished = 0 \<rparr>"

text \<open>\<open>cli()\<close> and \<open>sei()\<close> of \<open>avr/interrupt.h\<close> clear and set the I bit.\<close>

definition cli :: "mcu \<Rightarrow> mcu" where
  "cli s = s\<lparr>SREG := SREG s AND NOT (push_bit SREG_I 1)\<rparr>"

definition sei :: "mcu \<Rightarrow> mcu" where
  "sei s = s\<lparr>SREG := SREG s OR push_bit SREG_I 1\<rparr>"

definition interrupts_enabled :: "mcu \<Rightarrow> bool" where
  "interrupts_enabled s = bit (SREG s) SREG_I"

subsection \<open>The timer 1 overflow handler\<close>

text \<open>
  \<open>if (buzzerTimeout-- == 0)\<close> compares the value before the decrement; the decrement
  happens on every path and wraps from 0 to 0xFFFF.
\<close>

definition TIMER1_OVF_vect :: "mcu \<Rightarrow> mcu" where
  "TIMER1_OVF_vect s =
     (let old = buzzerTimeout s;
          s1 = s\<lparr>buzzerTimeout := old - 1\<rparr>
      in if old = 0 then
           s1\<lparr>TCCR1B := (TCCR1B s1 AND 0xF8) OR TIMER1_CLK_1,
              OCR1A := ucast (F_CPU div 1000),
              OCR1B := 0,
              DDRB := DDRB s1 AND NOT (push_bit PB2 1),
              buzzerFinished := 1\<rparr>
         else s1)"

subsection \<open>init\<close>

definition init :: "mcu \<Rightarrow> mcu" where
  "init s =
     s\<lparr>DDRB := DDRB s AND NOT (push_bit PB2 1),
       TCCR1A := 0x23,
       TCCR1B := 0x19,
       TCCR1C := 0x00,
       OCR1A := ucast (F_CPU div 1000),
       OCR1B := 0,
       TCNT1 := 0,
       TIFR1 := 0xFF,
       TIMSK1 := push_bit TOIE1 1\<rparr>"

subsection \<open>playFrequency\<close>

text \<open>Lines 141 to 145: the multiplier, and the frequency with the flag cleared.\<close>

definition pf_multiplier :: "u16 \<Rightarrow> u8" where
  "pf_multiplier freq = (if freq AND DIV_BY_10 \<noteq> 0 then 10 else 1)"

definition pf_strip :: "u16 \<Rightarrow> u16" where
  "pf_strip freq = (if freq AND DIV_BY_10 \<noteq> 0 then freq AND NOT DIV_BY_10 else freq)"

text \<open>
  Lines 150 to 175: clock source and counter top. The result is the clamped \<open>freq\<close>,
  \<open>newOCR1A\<close> and \<open>newTCCR1B\<close>. \<open>val\<close> is an \<open>unsigned char\<close>: the product
  \<open>40 * multiplier\<close> is computed in \<open>int\<close> and converted to 8 bits. The quotients are
  computed in \<open>unsigned long\<close> and converted to 16 bits.
\<close>

definition pf_clock :: "u8 \<Rightarrow> u16 \<Rightarrow> u16 \<Rightarrow> u16 \<times> u16 \<times> u16" where
  "pf_clock multiplier freq newTCCR1B =
     (if freq > 400 * ucast multiplier then
        let freq1 = (if freq > 10000 then 10000 else freq);
            newOCR1A = ucast ((20000000 :: u32) div ucast freq1)
        in (freq1, newOCR1A, newTCCR1B OR ucast TIMER1_CLK_1)
      else
        let val = (ucast ((40 :: u16) * ucast multiplier) :: u8);
            freq1 = (if freq < ucast val then ucast val else freq);
            newOCR1A = (if multiplier = 10
                        then ucast ((25000000 :: u32) div ucast freq1)
                        else ucast ((2500000 :: u32) div ucast freq1))
        in (freq1, newOCR1A, newTCCR1B OR ucast TIMER1_CLK_8))"

text \<open>Lines 179 and 180: the frequency in Hz that the timeout is computed from.\<close>

definition pf_round :: "u8 \<Rightarrow> u16 \<Rightarrow> u16" where
  "pf_round multiplier freq = (if multiplier = 10 then (freq + 5) div 10 else freq)"

text \<open>
  Lines 182 to 185, on the rounded frequency. \<open>(long)duration * freq / 1000\<close> is signed
  32-bit arithmetic (the division truncates towards zero), converted to 16 bits.
\<close>

definition pf_timeout :: "u16 \<Rightarrow> u16 \<Rightarrow> u16" where
  "pf_timeout freq duration =
     (if freq = 1000 then duration
      else word_of_int (sint ((ucast duration :: u32) * ucast freq) sdiv 1000))"

text \<open>
  The whole function. \<open>newTCCR1B\<close> is an \<open>unsigned int\<close>, converted to 8 bits when it
  is written to the register. \<open>OCR1A >> (16 - volume)\<close> reads the register just written.
  At volume 0 the shift count is 16, the width of the operand, where C leaves the result
  open; \<open>drop_bit\<close> gives 0 there, and no property below depends on that value, since
  the pin is an input at volume 0.
\<close>

definition playFrequency :: "u16 \<Rightarrow> u16 \<Rightarrow> u8 \<Rightarrow> mcu \<Rightarrow> mcu" where
  "playFrequency freq duration volume s =
     (let s1 = s\<lparr>buzzerFinished := 0\<rparr>;
          multiplier = pf_multiplier freq;
          freq1 = pf_strip freq;
          newTCCR1B0 = ucast (TCCR1B s1) AND 0xF8;
          (freq2, newOCR1A, newTCCR1B) = pf_clock multiplier freq1 newTCCR1B0;
          freq3 = pf_round multiplier freq2;
          timeout = pf_timeout freq3 duration;
          s2 = (if volume = 0 then s1\<lparr>DDRB := DDRB s1 AND NOT (push_bit PB2 1)\<rparr>
                else s1\<lparr>DDRB := DDRB s1 OR push_bit PB2 1\<rparr>);
          volume1 = (if volume > 15 then 15 else volume);
          sreg = SREG s2;
          s3 = cli s2;
          s4 = s3\<lparr>TCCR1B := ucast newTCCR1B\<rparr>;
          s5 = s4\<lparr>OCR1A := newOCR1A\<rparr>;
          s6 = s5\<lparr>OCR1B := drop_bit (16 - unat volume1) (OCR1A s5)\<rparr>;
          s7 = s6\<lparr>buzzerTimeout := timeout\<rparr>;
          s8 = s7\<lparr>SREG := sreg\<rparr>
      in sei s8)"

subsection \<open>playNote\<close>

text \<open>
  The switch over \<open>offset_note - exponent * 12\<close>, an \<open>int\<close>; \<open>freq\<close> keeps its
  initial 0 when no case matches.
\<close>

definition note_table :: "int \<Rightarrow> u16" where
  "note_table k =
     (if k = 0 then 412 else if k = 1 then 437 else if k = 2 then 463
      else if k = 3 then 490 else if k = 4 then 519 else if k = 5 then 550
      else if k = 6 then 583 else if k = 7 then 617 else if k = 8 then 654
      else if k = 9 then 693 else if k = 10 then 734 else if k = 11 then 778
      else 0)"

text \<open>Line 312: the formula of the top octave, in \<open>unsigned int\<close>.\<close>

definition top_octave :: "u16 \<Rightarrow> u16" where
  "top_octave freq = (freq * 64 + 2) div 5"

text \<open>
  Lines 245 and 254 to 312: the frequency code that \<open>playNote\<close> hands to
  \<open>playFrequency\<close> for a note that is not silent.
\<close>

definition note_freq :: "u8 \<Rightarrow> u16" where
  "note_freq note =
     (let offset_note0 = note - 16;
          offset_note = (if note \<le> 16 then 0
                         else if offset_note0 > 95 then 95 else offset_note0);
          exponent = offset_note div 12;
          freq = note_table (uint offset_note - uint exponent * 12)
      in if exponent < 7 then
           let freq1 = push_bit (unat exponent) freq
           in if exponent > 1 then (freq1 + 5) div 10 else freq1 + DIV_BY_10
         else top_octave freq)"

definition playNote :: "u8 \<Rightarrow> u16 \<Rightarrow> u8 \<Rightarrow> mcu \<Rightarrow> mcu" where
  "playNote note duration volume s =
     (if note = SILENT_NOTE \<or> volume = 0 then playFrequency 1000 duration 0 s
      else
        let freq = note_freq note;
            volume1 = (if volume > 15 then 15 else volume)
        in playFrequency freq duration volume1 s)"

subsection \<open>isPlaying\<close>

definition isPlaying :: "mcu \<Rightarrow> u8" where
  "isPlaying s = (if buzzerFinished s = 0 then 1 else 0)"

subsection \<open>Runs of the driver\<close>

text \<open>
  A run is a sequence of calls and handler executions, each taken as one step. \<open>ticks n\<close>
  is \<open>n\<close> executions of the handler in a row.
\<close>

datatype event = PlayFrequency u16 u16 u8 | PlayNote u8 u16 u8 | Tick

fun step :: "mcu \<Rightarrow> event \<Rightarrow> mcu" where
  "step s (PlayFrequency freq duration volume) = playFrequency freq duration volume s"
| "step s (PlayNote note duration volume) = playNote note duration volume s"
| "step s Tick = TIMER1_OVF_vect s"

definition run :: "event list \<Rightarrow> mcu \<Rightarrow> mcu" where
  "run evs s = foldl step s evs"

fun ticks :: "nat \<Rightarrow> mcu \<Rightarrow> mcu" where
  "ticks 0 s = s"
| "ticks (Suc n) s = ticks n (TIMER1_OVF_vect s)"

text \<open>
  The idle reference configuration: the pin is an input, the clock select bits choose the
  undivided clock, the top is clock/1000 and the duty cycle is zero.
\<close>

definition idle :: "mcu \<Rightarrow> bool" where
  "idle s \<longleftrightarrow>
     \<not> bit (DDRB s) PB2 \<and> TCCR1B s AND 0x07 = TIMER1_CLK_1 \<and>
     OCR1A s = 20000 \<and> OCR1B s = 0"

subsection \<open>Observations of a call\<close>

text \<open>
  The values of the local \<open>freq\<close> of \<open>playFrequency\<close> after the clamping (line 175)
  and when the timeout is computed (line 182). Neither depends on the clock select bits.
\<close>

definition freq_clamped :: "u16 \<Rightarrow> u16" where
  "freq_clamped freq = fst (pf_clock (pf_multiplier freq) (pf_strip freq) 0)"

definition freq_rounded :: "u16 \<Rightarrow> u16" where
  "freq_rounded freq = pf_round (pf_multiplier freq) (freq_clamped freq)"

text \<open>
  The true frequency that a frequency code stands for, in tenths of a Hz, read the way
  \<open>playFrequency\<close> decodes it: with the flag the remaining bits are tenths of a Hz,
  without it the value is in Hz.
\<close>

definition tenths_of :: "u16 \<Rightarrow> nat" where
  "tenths_of freq =
     (if pf_multiplier freq = 10 then unat (pf_strip freq) else 10 * unat (pf_strip freq))"

text \<open>
  The reference for the top octave, over unbounded integers: a value in tenths of a Hz is
  doubled seven times and rounded to Hz.
\<close>

definition reference_top_octave :: "int \<Rightarrow> int" where
  "reference_top_octave v = (v * 2 ^ 7 + 5) div 10"

text \<open>
  The true frequencies, in tenths of a Hz, that the notes 16 to 111 are checked against
  in the proofs below.
\<close>

abbreviation note_tenths :: "nat list" where
  "note_tenths \<equiv>
    [412, 437, 463, 490, 519, 550, 583, 617, 654, 693, 734, 778, 824, 874, 926, 980,
     1038, 1100, 1166, 1234, 1308, 1386, 1468, 1556, 1650, 1750, 1850, 1960, 2080,
     2200, 2330, 2470, 2620, 2770, 2940, 3110, 3300, 3500, 3700, 3920, 4150, 4400,
     4660, 4940, 5230, 5540, 5870, 6220, 6590, 6990, 7410, 7840, 8300, 8800, 9330,
     9870, 10460, 11090, 11740, 12450, 13180, 13980, 14820, 15680, 16610, 17600,
     18660, 19740, 20930, 22180, 23490, 24900, 26370, 27970, 29630, 31360, 33220,
     35200, 37310, 39490, 41860, 44350, 46980, 49790, 52740, 55940, 59260, 62720,
     66430, 70400, 74620, 78980, 83710, 88700, 93950, 99580]"

section \<open>Properties\<close>

subsection \<open>What a call of playFrequency leaves in each register\<close>

lemma pf_clock_fst_indep: "fst (pf_clock m f t) = fst (pf_clock m f 0)"
  by (simp add: pf_clock_def Let_def)

lemma pf_clock_top_indep: "fst (snd (pf_clock m f t)) = fst (snd (pf_clock m f 0))"
  by (simp add: pf_clock_def Let_def)

lemma SREG_playFrequency: "SREG (playFrequency freq duration volume s) = SREG s OR 0x80"
  by (simp add: playFrequency_def cli_def sei_def SREG_I_def Let_def case_prod_beta)

lemma buzzerFinished_playFrequency:
  "buzzerFinished (playFrequency freq duration volume s) = 0"
  by (simp add: playFrequency_def cli_def sei_def Let_def case_prod_beta)

lemma DDRB_playFrequency:
  "DDRB (playFrequency freq duration volume s) =
     (if volume = 0 then DDRB s AND NOT 4 else DDRB s OR 4)"
  by (simp add: playFrequency_def cli_def sei_def PB2_def Let_def case_prod_beta)

lemma OCR1A_playFrequency:
  "OCR1A (playFrequency freq duration volume s) =
     fst (snd (pf_clock (pf_multiplier freq) (pf_strip freq) 0))"
  by (simp add: playFrequency_def cli_def sei_def Let_def case_prod_beta
      pf_clock_top_indep [of _ _ "ucast (TCCR1B s) AND 0xF8"])

lemma OCR1B_playFrequency:
  "OCR1B (playFrequency freq duration volume s) =
     drop_bit (16 - unat (if volume > 15 then 15 else volume))
       (OCR1A (playFrequency freq duration volume s))"
  by (simp add: playFrequency_def cli_def sei_def Let_def case_prod_beta)

lemma buzzerTimeout_playFrequency:
  "buzzerTimeout (playFrequency freq duration volume s) =
     pf_timeout (freq_rounded freq) duration"
  by (simp add: playFrequency_def cli_def sei_def Let_def case_prod_beta
      freq_rounded_def freq_clamped_def
      pf_clock_fst_indep [of _ _ "ucast (TCCR1B s) AND 0xF8"])

lemma TCCR1B_playFrequency:
  "TCCR1B (playFrequency freq duration volume s) =
     ucast (snd (snd (pf_clock (pf_multiplier freq) (pf_strip freq)
       (ucast (TCCR1B s) AND 0xF8))))"
  by (simp add: playFrequency_def cli_def sei_def Let_def case_prod_beta)

lemma clock_select_bits:
  "ucast ((ucast (x :: u8) AND 0xF8 :: u16) OR ucast (c :: u8)) AND (0x07 :: u8) = c AND 0x07"
proof -
  have "ucast ((ucast x AND 0xF8 :: u16) OR ucast c) = (x AND 0xF8) OR c"
    by (rule bit_word_eqI) (auto simp add: bit_simps)
  moreover have "((x AND 0xF8) OR c) AND 0x07 = c AND 0x07"
    by (simp add: bit.conj_disj_distrib2 and.assoc)
  ultimately show ?thesis by simp
qed

subsection \<open>The flag and the quotients, as numbers\<close>

lemma unat_quotient:
  "unat (ucast ((c :: u32) div ucast (x :: u16)) :: u16) = (unat c div unat x) mod 65536"
proof -
  have "unat x < 65536" using unsigned_less [of x] by simp
  then have "unat (ucast x :: u32) = unat x"
    by (simp add: unsigned_ucast_eq take_bit_eq_mod)
  then show ?thesis by (simp add: unsigned_ucast_eq unat_div take_bit_eq_mod)
qed

lemma flag_test: "f AND DIV_BY_10 \<noteq> 0 \<longleftrightarrow> bit f 15" for f :: u16
  unfolding DIV_BY_10_def by (simp only: bit_iff_and_push_bit_not_eq_0)

lemma bit_DIV_BY_10: "bit DIV_BY_10 n \<longleftrightarrow> n = 15"
  unfolding DIV_BY_10_def by (simp only: bit_push_bit_iff bit_1_iff possible_bit_word) auto

lemma strip_flag: "f AND NOT DIV_BY_10 = take_bit 15 f" for f :: u16
  by (rule bit_word_eqI) (auto simp add: bit_simps bit_DIV_BY_10)

lemma unat_strip: "unat (f AND NOT DIV_BY_10) = unat f mod 32768"
  by (simp only: strip_flag unsigned_take_bit_eq) (simp add: take_bit_eq_mod)

subsection \<open>Interrupt state across playFrequency\<close>

lemma playFrequency_sets_I: "interrupts_enabled (playFrequency freq duration volume s)"
  by (simp add: interrupts_enabled_def SREG_playFrequency SREG_I_def bit_or_iff)

text \<open>
  C1. The claim is that the global interrupt enable on return equals the one on entry.
  The function saves the status register, clears the I bit and restores the register, and
  then executes \<open>sei()\<close>, which sets the I bit whatever was restored. Here the call is
  made in the state after reset, where interrupts are disabled, and returns with them
  enabled.
\<close>

theorem playFrequency_enables_interrupts:
  "\<not> interrupts_enabled power_on \<and>
   interrupts_enabled (playFrequency 440 1000 15 power_on)"
  by (simp add: interrupts_enabled_def SREG_playFrequency SREG_I_def power_on_def)

subsection \<open>The formula of the top octave\<close>

text \<open>
  C9. For each entry of the table of base frequencies, the 16-bit formula of the top
  octave, \<open>(v * 64 + 2) / 5\<close>, gives the value of the reference over unbounded integers,
  \<open>(v * 2^7 + 5) / 10\<close>. The cases 0 to 11 of the switch give the twelve table values,
  412 to 778; any other argument leaves 0, where both sides are 0.
\<close>

theorem top_octave_refines_reference:
  "uint (top_octave (note_table k)) = reference_top_octave (uint (note_table k)) \<and>
   map note_table [0, 1, 2, 3, 4, 5, 6, 7, 8, 9, 10, 11] =
     [412, 437, 463, 490, 519, 550, 583, 617, 654, 693, 734, 778]"
  by (simp add: top_octave_def note_table_def reference_top_octave_def)

subsection \<open>Volume\<close>

lemma playFrequency_volume_clamp:
  "15 < v \<Longrightarrow> playFrequency f d v s = playFrequency f d 15 s"
  by (auto simp add: playFrequency_def Let_def)

lemma pin_input_at_volume_0: "\<not> bit (DDRB (playFrequency f d 0 s)) PB2"
  by (simp add: DDRB_playFrequency PB2_def bit_simps)

lemma duty_cycle:
  "v \<le> 15 \<Longrightarrow>
   OCR1B (playFrequency f d v s) = drop_bit (16 - unat v) (OCR1A (playFrequency f d v s))"
  by (simp add: OCR1B_playFrequency flip: not_le)

lemma drop_bit_mono: "m \<le> n \<Longrightarrow> drop_bit n x \<le> drop_bit m x" for x :: u16
proof -
  assume "m \<le> n"
  then have "unat x div 2 ^ n \<le> unat x div 2 ^ m"
    by (intro div_le_mono2) simp_all
  then show ?thesis
    by (simp only: word_le_nat_alt unat_drop_bit_eq drop_bit_eq_div [where ?'a = nat])
qed

lemma duty_mono:
  "u \<le> w \<Longrightarrow> w \<le> 15 \<Longrightarrow>
   OCR1B (playFrequency f d u s) \<le> OCR1B (playFrequency f d w s)"
proof -
  assume a: "u \<le> w" "w \<le> 15"
  then have b: "u \<le> 15" by simp
  from a have "16 - unat w \<le> 16 - unat u" by (simp add: word_le_nat_alt)
  then have "drop_bit (16 - unat u) (OCR1A (playFrequency f d u s))
      \<le> drop_bit (16 - unat w) (OCR1A (playFrequency f d w s))"
    by (simp add: OCR1A_playFrequency drop_bit_mono)
  then show ?thesis using a b by (simp add: duty_cycle)
qed

text \<open>
  C7. At volume 0 the buzzer pin is an input, whatever the frequency. A volume above 15
  leaves the same state as volume 15. At a volume \<open>u\<close> from 1 to 15 the duty cycle
  register is the counter top shifted right by \<open>16 - u\<close>, and for the same frequency a
  larger volume never gives a smaller duty cycle.
\<close>

theorem volume_behaviour:
  "\<not> bit (DDRB (playFrequency f d 0 s)) PB2 \<and>
   (15 < v \<longrightarrow> playFrequency f d v s = playFrequency f d 15 s) \<and>
   (1 \<le> u \<and> u \<le> 15 \<longrightarrow>
      OCR1B (playFrequency f d u s) =
        drop_bit (16 - unat u) (OCR1A (playFrequency f d u s))) \<and>
   (1 \<le> u \<and> u \<le> w \<and> w \<le> 15 \<longrightarrow>
      OCR1B (playFrequency f d u s) \<le> OCR1B (playFrequency f d w s))"
  using pin_input_at_volume_0 playFrequency_volume_clamp duty_cycle duty_mono by blast

theorem volume_behaviour_witness:
  "(15 :: u8) < 200 \<and>
   playFrequency 440 1000 200 power_on = playFrequency 440 1000 15 power_on \<and>
   (1 :: u8) \<le> 8 \<and> (8 :: u8) \<le> 12 \<and> (12 :: u8) \<le> 15 \<and>
   OCR1B (playFrequency 440 1000 8 power_on) =
     drop_bit (16 - unat (8 :: u8)) (OCR1A (playFrequency 440 1000 8 power_on)) \<and>
   OCR1B (playFrequency 440 1000 8 power_on) \<le> OCR1B (playFrequency 440 1000 12 power_on)"
proof -
  have h: "(15 :: u8) < 200" "(1 :: u8) \<le> 8" "(8 :: u8) \<le> 12" "(12 :: u8) \<le> 15"
    "(8 :: u8) \<le> 15"
    by simp_all
  show ?thesis using h volume_behaviour [of 440 1000 power_on 200 8 12] by blast
qed

subsection \<open>Tenths of a Hz above 400 Hz\<close>

lemma pf_clock_fast:
  "400 * ucast m < x \<Longrightarrow>
   pf_clock m x t =
     (if 10000 < x then 10000 else x,
      ucast ((20000000 :: u32) div ucast (if 10000 < x then 10000 else x)),
      t OR ucast TIMER1_CLK_1)"
  by (simp add: pf_clock_def Let_def)

lemma unat_clamp_high: "unat (if (10000 :: u16) < x then 10000 else x) = min (unat x) 10000"
  by (simp add: word_less_nat_alt min_def)

lemma quotient_fits: "400 < n \<Longrightarrow> 20000000 div n < (65536 :: nat)"
proof -
  assume "400 < n"
  then have "20000000 div n \<le> 20000000 div 401" by (intro div_le_mono2) simp_all
  then show ?thesis by simp
qed

lemma div_brackets: "0 < t \<Longrightarrow> t * (c div t) \<le> c \<and> c < t * (c div t + 1)" for t c :: nat
  by (metis add.commute mult.commute dividend_less_times_div mult_Suc_right Suc_eq_plus1
      times_div_less_eq_dividend)

lemma tenths_fast_top:
  assumes "f AND DIV_BY_10 \<noteq> 0" and "4000 < unat (pf_strip f)"
  shows "unat (OCR1A (playFrequency f d v s)) = 20000000 div min (unat (pf_strip f)) 10000"
    and "TCCR1B (playFrequency f d v s) AND 0x07 = TIMER1_CLK_1"
proof -
  from assms(1) have m: "pf_multiplier f = 10" by (simp add: pf_multiplier_def)
  from assms(2) have lt: "400 * ucast (10 :: u8) < pf_strip f"
    by (simp add: word_less_nat_alt)
  have "400 < min (unat (pf_strip f)) 10000" using assms(2) by simp
  then have "20000000 div min (unat (pf_strip f)) 10000 < 65536" by (rule quotient_fits)
  then show "unat (OCR1A (playFrequency f d v s)) = 20000000 div min (unat (pf_strip f)) 10000"
    by (simp add: OCR1A_playFrequency m pf_clock_fast [OF lt] unat_quotient unat_clamp_high)
  show "TCCR1B (playFrequency f d v s) AND 0x07 = TIMER1_CLK_1"
    by (simp add: TCCR1B_playFrequency m pf_clock_fast [OF lt] clock_select_bits)
      (simp add: TIMER1_CLK_1_def)
qed

lemma unat_pf_strip_flagged: "f AND DIV_BY_10 \<noteq> 0 \<Longrightarrow> unat (pf_strip f) < 32768"
  by (simp add: pf_strip_def unat_strip)

text \<open>
  C10, as amended. When the flag is set and the tenths value \<open>t\<close> (the argument with
  the flag cleared) is above 4000, the call selects the undivided clock and the counter
  top is 20000000 divided by \<open>t\<close> itself, with \<open>t\<close> compared against 10000 and
  replaced by it when larger. For \<open>t\<close> up to 10000 the top is the one of a tone of \<open>t\<close>
  Hz, ten times the requested \<open>t/10\<close> Hz: \<open>t * top \<le> 20000000 < t * (top + 1)\<close>. For
  every \<open>t\<close> above 4000 the programmed frequency \<open>20000000 / top\<close> is at least three
  times the requested one: \<open>3 * t * top \<le> 200000000\<close>.
\<close>

theorem tenths_above_400_Hz:
  "f AND DIV_BY_10 \<noteq> 0 \<Longrightarrow> 4000 < unat (pf_strip f) \<Longrightarrow>
   TCCR1B (playFrequency f d v s) AND 0x07 = TIMER1_CLK_1 \<and>
   unat (OCR1A (playFrequency f d v s)) = 20000000 div min (unat (pf_strip f)) 10000 \<and>
   (unat (pf_strip f) \<le> 10000 \<longrightarrow>
      unat (pf_strip f) * unat (OCR1A (playFrequency f d v s)) \<le> 20000000 \<and>
      20000000 < unat (pf_strip f) * (unat (OCR1A (playFrequency f d v s)) + 1)) \<and>
   3 * (unat (pf_strip f) * unat (OCR1A (playFrequency f d v s))) \<le> 200000000"
proof (intro conjI impI)
  assume a: "f AND DIV_BY_10 \<noteq> 0" "4000 < unat (pf_strip f)"
  show "TCCR1B (playFrequency f d v s) AND 0x07 = TIMER1_CLK_1"
    by (rule tenths_fast_top(2) [OF a])
  show top: "unat (OCR1A (playFrequency f d v s)) = 20000000 div min (unat (pf_strip f)) 10000"
    by (rule tenths_fast_top(1) [OF a])
  from a(2) have pos: "0 < unat (pf_strip f)" by simp
  show "3 * (unat (pf_strip f) * unat (OCR1A (playFrequency f d v s))) \<le> 200000000"
  proof (cases "unat (pf_strip f) \<le> 10000")
    case True
    then have eq: "unat (OCR1A (playFrequency f d v s)) = 20000000 div unat (pf_strip f)"
      using top by (simp add: min_def)
    have "unat (pf_strip f) * (20000000 div unat (pf_strip f)) \<le> 20000000"
      using div_brackets [OF pos, of 20000000] by (rule conjunct1)
    then show ?thesis unfolding eq by linarith
  next
    case False
    then have "unat (OCR1A (playFrequency f d v s)) = 2000"
      using top by (simp add: min_def)
    then show ?thesis using unat_pf_strip_flagged [OF a(1)] by simp
  qed
  assume b: "unat (pf_strip f) \<le> 10000"
  then have top': "unat (OCR1A (playFrequency f d v s)) = 20000000 div unat (pf_strip f)"
    using top by (simp add: min_def)
  show "unat (pf_strip f) * unat (OCR1A (playFrequency f d v s)) \<le> 20000000"
    unfolding top' using div_brackets [OF pos, of 20000000] by simp
  show "20000000 < unat (pf_strip f) * (unat (OCR1A (playFrequency f d v s)) + 1)"
    unfolding top' using div_brackets [OF pos, of 20000000] by simp
qed

theorem tenths_above_400_Hz_witness:
  "(DIV_BY_10 + 5000) AND DIV_BY_10 \<noteq> 0 \<and> 4000 < unat (pf_strip (DIV_BY_10 + 5000)) \<and>
   unat (pf_strip (DIV_BY_10 + 5000)) = 5000 \<and>
   TCCR1B (playFrequency (DIV_BY_10 + 5000) 1000 15 power_on) AND 0x07 = TIMER1_CLK_1 \<and>
   unat (OCR1A (playFrequency (DIV_BY_10 + 5000) 1000 15 power_on)) = 4000"
proof -
  have h: "(DIV_BY_10 + 5000) AND DIV_BY_10 \<noteq> 0" "unat (pf_strip (DIV_BY_10 + 5000)) = 5000"
    by (simp_all add: pf_strip_def DIV_BY_10_def)
  then have h2: "4000 < unat (pf_strip (DIV_BY_10 + 5000))" by simp
  show ?thesis using h h2 tenths_above_400_Hz [OF h(1) h2, of 1000 15 power_on] by simp
qed

text \<open>
  C10 as stated fails above 10000 tenths: \<open>playFrequency(DIV_BY_10 | 32767, 1000, 15)\<close>
  requests 3276.7 Hz and gets the top 2000, which is 10000 Hz, less than four times the
  request and not ten times.
\<close>

theorem tenths_3276_Hz_programs_10_kHz:
  "(DIV_BY_10 + 32767) AND DIV_BY_10 \<noteq> 0 \<and>
   unat (pf_strip (DIV_BY_10 + 32767)) = 32767 \<and>
   TCCR1B (playFrequency (DIV_BY_10 + 32767) 1000 15 power_on) AND 0x07 = TIMER1_CLK_1 \<and>
   unat (OCR1A (playFrequency (DIV_BY_10 + 32767) 1000 15 power_on)) = 2000 \<and>
   \<not> unat (pf_strip (DIV_BY_10 + 32767)) *
       unat (OCR1A (playFrequency (DIV_BY_10 + 32767) 1000 15 power_on)) \<le> 20000000 \<and>
   10 * (20000000 div unat (OCR1A (playFrequency (DIV_BY_10 + 32767) 1000 15 power_on)))
     < 4 * unat (pf_strip (DIV_BY_10 + 32767))"
proof -
  have h: "(DIV_BY_10 + 32767) AND DIV_BY_10 \<noteq> 0" "unat (pf_strip (DIV_BY_10 + 32767)) = 32767"
    by (simp_all add: pf_strip_def DIV_BY_10_def)
  then have h2: "4000 < unat (pf_strip (DIV_BY_10 + 32767))" by simp
  show ?thesis
    using h tenths_fast_top [OF h(1) h2, of 1000 15 power_on] by simp
qed

subsection \<open>The tick timeout\<close>

lemma unat_ucast_16_32: "unat (ucast (x :: u16) :: u32) = unat x"
proof -
  have "unat x < 65536" using unsigned_less [of x] by simp
  then show ?thesis by (simp add: unsigned_ucast_eq take_bit_eq_mod)
qed

lemma signed_31_small: "n < 2147483648 \<Longrightarrow> signed_take_bit 31 (int n) = int n"
  by (intro signed_take_bit_int_eq_self) simp_all

lemma long_quotient: "word_of_int (int n sdiv 1000) = (word_of_nat (n div 1000) :: u16)"
proof -
  have "int n sdiv 1000 = int (n div 1000)"
    by (simp add: signed_divide_int_def sgn_if zdiv_int)
  then show ?thesis by (simp only: of_int_of_nat_eq)
qed

lemma long_product:
  assumes "unat f \<le> 10000"
  shows "sint ((ucast (d :: u16) :: u32) * ucast (f :: u16)) = int (unat d * unat f)"
proof -
  have d: "unat d < 65536" using unsigned_less [of d] by simp
  have "unat d * unat f \<le> 65535 * 10000"
    using d assms by (intro mult_le_mono) simp_all
  then have small: "unat d * unat f < 2147483648" by simp
  then have "unat (ucast d :: u32) * unat (ucast f :: u32) < 2 ^ LENGTH(32)"
    by (simp add: unat_ucast_16_32)
  then have "unat ((ucast d :: u32) * ucast f) = unat d * unat f"
    by (simp add: unat_mult_lem [THEN iffD1] unat_ucast_16_32)
  then have u: "uint ((ucast d :: u32) * ucast f) = int (unat d * unat f)"
    by (simp only: uint_nat)
  have "sint ((ucast d :: u32) * ucast f) = signed_take_bit (LENGTH(32) - Suc 0) (int (unat d * unat f))"
    by (simp only: sint_uint u)
  also have "\<dots> = int (unat d * unat f)"
    using signed_31_small [OF small] by simp
  finally show ?thesis .
qed

lemma unat_pf_timeout:
  assumes "unat f \<le> 10000"
  shows "unat (pf_timeout f d) =
    (if unat f = 1000 then unat d else (unat d * unat f div 1000) mod 65536)"
proof (cases "f = 1000")
  case True
  then show ?thesis by (simp add: pf_timeout_def)
next
  case False
  then have ne: "unat f \<noteq> 1000" using word_unat_eq_iff [of f 1000] by simp
  have "pf_timeout f d = word_of_int (int (unat d * unat f) sdiv 1000)"
    using False by (simp only: pf_timeout_def long_product [OF assms] if_False)
  also have "\<dots> = word_of_nat (unat d * unat f div 1000)"
    by (rule long_quotient)
  finally show ?thesis using ne by (simp add: unat_of_nat)
qed

lemma unat_freq_clamped_plain:
  assumes "f AND DIV_BY_10 = 0"
  shows "unat (freq_clamped f) = max 40 (min 10000 (unat f))"
proof -
  from assms have m: "pf_multiplier f = 1" "pf_strip f = f"
    by (simp_all add: pf_multiplier_def pf_strip_def)
  show ?thesis
    by (simp add: freq_clamped_def m pf_clock_def Let_def word_less_nat_alt)
qed

lemma unat_freq_clamped_tenths:
  assumes "f AND DIV_BY_10 \<noteq> 0"
  shows "unat (freq_clamped f) =
    (if 4000 < unat (pf_strip f) then min 10000 (unat (pf_strip f))
     else max 144 (unat (pf_strip f)))"
proof -
  from assms have m: "pf_multiplier f = 10"
    by (simp add: pf_multiplier_def)
  show ?thesis
    by (simp add: freq_clamped_def m pf_clock_def Let_def word_less_nat_alt)
qed

lemma unat_freq_rounded_plain:
  "f AND DIV_BY_10 = 0 \<Longrightarrow> unat (freq_rounded f) = max 40 (min 10000 (unat f))"
  by (simp add: freq_rounded_def pf_round_def pf_multiplier_def unat_freq_clamped_plain)

lemma unat_round:
  assumes "unat c \<le> 10000"
  shows "unat ((c + 5) div 10 :: u16) = (unat c + 5) div 10"
proof -
  have "unat c + unat (5 :: u16) < 2 ^ LENGTH(16)" using assms by simp
  then have "unat (c + 5) = unat c + 5" by (simp add: unat_add_lem [THEN iffD1])
  then show ?thesis by (simp add: unat_div)
qed

lemma unat_freq_rounded_tenths:
  assumes "f AND DIV_BY_10 \<noteq> 0"
  shows "unat (freq_rounded f) = (unat (freq_clamped f) + 5) div 10"
proof -
  from assms have m: "pf_multiplier f = 10" by (simp add: pf_multiplier_def)
  have "unat (freq_clamped f) \<le> 10000"
    by (simp add: unat_freq_clamped_tenths [OF assms])
  then show ?thesis by (simp add: freq_rounded_def pf_round_def m unat_round)
qed

lemma freq_rounded_le: "unat (freq_rounded f) \<le> 10000"
proof (cases "f AND DIV_BY_10 = 0")
  case True
  then show ?thesis by (simp add: unat_freq_rounded_plain)
next
  case False
  have "unat (freq_clamped f) \<le> 10000"
    by (simp add: unat_freq_clamped_tenths [OF False])
  then show ?thesis by (simp add: unat_freq_rounded_tenths [OF False])
qed

text \<open>
  C6, as amended. The stored timeout is the duration when the rounded frequency is
  1000 Hz; otherwise it is the quotient of duration times frequency by 1000, rounded down
  and reduced modulo 65536 by the conversion to 16 bits, so it is that quotient whenever
  the quotient is below 65536. \<open>playNote\<close> with the silent note, duration 500 and
  volume 15 is the call \<open>playFrequency(1000, 500, 0)\<close>: the frequency is 1000 Hz, the
  timeout is 500 and the pin is an input.
\<close>

theorem tick_timeout_formula:
  "unat (buzzerTimeout (playFrequency f d v s)) =
     (if unat (freq_rounded f) = 1000 then unat d
      else (unat d * unat (freq_rounded f) div 1000) mod 65536) \<and>
   playNote SILENT_NOTE 500 15 s = playFrequency 1000 500 0 s \<and>
   freq_rounded 1000 = 1000 \<and>
   buzzerTimeout (playNote SILENT_NOTE 500 15 s) = 500 \<and>
   \<not> bit (DDRB (playNote SILENT_NOTE 500 15 s)) PB2"
proof (intro conjI)
  show "unat (buzzerTimeout (playFrequency f d v s)) =
     (if unat (freq_rounded f) = 1000 then unat d
      else (unat d * unat (freq_rounded f) div 1000) mod 65536)"
    by (simp only: buzzerTimeout_playFrequency unat_pf_timeout [OF freq_rounded_le])
  show eq: "playNote SILENT_NOTE 500 15 s = playFrequency 1000 500 0 s"
    by (simp add: playNote_def)
  have plain: "(1000 :: u16) AND DIV_BY_10 = 0" by (simp add: DIV_BY_10_def)
  show r: "freq_rounded 1000 = 1000"
    using unat_freq_rounded_plain [OF plain] word_unat_eq_iff [of "freq_rounded 1000" 1000] by simp
  show "buzzerTimeout (playNote SILENT_NOTE 500 15 s) = 500"
    by (simp add: eq buzzerTimeout_playFrequency r pf_timeout_def)
  show "\<not> bit (DDRB (playNote SILENT_NOTE 500 15 s)) PB2"
    by (simp add: eq DDRB_playFrequency PB2_def bit_simps)
qed

text \<open>
  C6 as stated fails where the quotient does not fit 16 bits: at 10000 Hz and a duration
  of 65535 ms the quotient is 655350 and the stored timeout is 65526.
\<close>

theorem tick_timeout_wraps:
  "freq_rounded 10000 \<noteq> 1000 \<and>
   unat (buzzerTimeout (playFrequency 10000 65535 15 power_on)) = 65526 \<and>
   unat (buzzerTimeout (playFrequency 10000 65535 15 power_on)) \<noteq>
     unat (65535 :: u16) * unat (freq_rounded 10000) div 1000"
proof -
  have plain: "(10000 :: u16) AND DIV_BY_10 = 0" by (simp add: DIV_BY_10_def)
  have r: "freq_rounded 10000 = 10000"
    using unat_freq_rounded_plain [OF plain] word_unat_eq_iff [of "freq_rounded 10000" 10000]
    by simp
  have "unat (pf_timeout 10000 65535) = 65526"
    by (simp add: unat_pf_timeout)
  then show ?thesis by (simp add: r buzzerTimeout_playFrequency)
qed

subsection \<open>The countdown\<close>

lemma tick_running:
  "buzzerTimeout s \<noteq> 0 \<Longrightarrow> TIMER1_OVF_vect s = s\<lparr>buzzerTimeout := buzzerTimeout s - 1\<rparr>"
  by (simp add: TIMER1_OVF_vect_def Let_def)

lemma tick_expired:
  "buzzerTimeout s = 0 \<Longrightarrow>
   TIMER1_OVF_vect s =
     s\<lparr>buzzerTimeout := - 1,
       TCCR1B := (TCCR1B s AND 0xF8) OR TIMER1_CLK_1,
       OCR1A := 20000,
       OCR1B := 0,
       DDRB := DDRB s AND NOT 4,
       buzzerFinished := 1\<rparr>"
  by (simp add: TIMER1_OVF_vect_def Let_def F_CPU_def PB2_def)

lemma idle_tick_expired: "buzzerTimeout s = 0 \<Longrightarrow> idle (TIMER1_OVF_vect s)"
proof -
  have "((x AND 0xF8) OR 1) AND 0x07 = (1 :: u8)" for x
    by (simp add: bit.conj_disj_distrib2 and.assoc)
  then show "buzzerTimeout s = 0 \<Longrightarrow> idle (TIMER1_OVF_vect s)"
    by (simp add: tick_expired idle_def TIMER1_CLK_1_def PB2_def bit_simps)
qed

lemma ticks_Suc_right: "ticks (Suc n) s = TIMER1_OVF_vect (ticks n s)"
  by (induction n arbitrary: s) simp_all

lemma ticks_countdown:
  "k \<le> unat (buzzerTimeout s) \<Longrightarrow>
   ticks k s = s\<lparr>buzzerTimeout := buzzerTimeout s - of_nat k\<rparr>"
proof (induction k arbitrary: s)
  case 0
  then show ?case by simp
next
  case (Suc k)
  then have pos: "0 < unat (buzzerTimeout s)" by simp
  then have ne: "buzzerTimeout s \<noteq> 0" by (auto simp add: unat_gt_0)
  have "unat (buzzerTimeout s - 1) = unat (buzzerTimeout s) - 1"
    using ne by (simp add: unat_minus_one)
  with Suc.prems have "k \<le> unat (buzzerTimeout (s\<lparr>buzzerTimeout := buzzerTimeout s - 1\<rparr>))"
    by simp
  from Suc.IH [OF this] show ?case
    by (simp add: tick_running [OF ne])
qed

lemma ticks_to_zero:
  "ticks (unat (buzzerTimeout s)) s = s\<lparr>buzzerTimeout := 0\<rparr>"
  using ticks_countdown [of "unat (buzzerTimeout s)" s] by simp

lemma isPlaying_ticks_before:
  "k \<le> unat (buzzerTimeout s) \<Longrightarrow> isPlaying (ticks k s) = isPlaying s"
  by (simp add: ticks_countdown isPlaying_def)

lemma finished_after:
  "buzzerFinished (ticks (Suc (unat (buzzerTimeout s))) s) = 1"
  by (simp only: ticks_Suc_right ticks_to_zero) (simp add: tick_expired)

lemma idle_after:
  "idle (ticks (Suc (unat (buzzerTimeout s))) s)"
  by (simp only: ticks_Suc_right ticks_to_zero) (simp add: idle_tick_expired)

lemma timeout_440: "buzzerTimeout (playFrequency 440 1000 15 s) = 440"
proof -
  have plain: "(440 :: u16) AND DIV_BY_10 = 0" by (simp add: DIV_BY_10_def)
  then have "freq_rounded 440 = 440"
    by (simp add: freq_rounded_def freq_clamped_def pf_round_def pf_multiplier_def pf_strip_def pf_clock_def)
  then show ?thesis by (simp add: buzzerTimeout_playFrequency pf_timeout_def)
qed

text \<open>
  C3, as amended. Right after a call of \<open>playFrequency\<close> that stores timeout \<open>N\<close>,
  \<open>isPlaying\<close> returns 1, and it still returns 1 after any \<open>k \<le> N\<close> executions of
  the handler with no call in between. After \<open>N + 1\<close> executions it returns 0 and the
  timer is in the idle reference configuration. \<open>playFrequency(440, 1000, 15)\<close> stores
  \<open>N = 440\<close>.
\<close>

theorem finishes_after_timeout_plus_one:
  "isPlaying (playFrequency f d v s) = 1 \<and>
   (k \<le> unat (buzzerTimeout (playFrequency f d v s)) \<longrightarrow>
      isPlaying (ticks k (playFrequency f d v s)) = 1) \<and>
   isPlaying (ticks (Suc (unat (buzzerTimeout (playFrequency f d v s))))
     (playFrequency f d v s)) = 0 \<and>
   idle (ticks (Suc (unat (buzzerTimeout (playFrequency f d v s))))
     (playFrequency f d v s)) \<and>
   buzzerTimeout (playFrequency 440 1000 15 s) = 440"
proof (intro conjI impI)
  show a: "isPlaying (playFrequency f d v s) = 1"
    by (simp add: isPlaying_def buzzerFinished_playFrequency)
  show "isPlaying (ticks k (playFrequency f d v s)) = 1"
    if "k \<le> unat (buzzerTimeout (playFrequency f d v s))"
    using that a by (simp only: isPlaying_ticks_before)
  show "isPlaying (ticks (Suc (unat (buzzerTimeout (playFrequency f d v s))))
     (playFrequency f d v s)) = 0"
    by (simp only: isPlaying_def finished_after) simp
  show "idle (ticks (Suc (unat (buzzerTimeout (playFrequency f d v s))))
     (playFrequency f d v s))"
    by (rule idle_after)
  show "buzzerTimeout (playFrequency 440 1000 15 s) = 440"
    by (rule timeout_440)
qed

theorem finishes_after_timeout_plus_one_witness:
  "440 \<le> unat (buzzerTimeout (playFrequency 440 1000 15 power_on)) \<and>
   isPlaying (ticks 440 (playFrequency 440 1000 15 power_on)) = 1 \<and>
   isPlaying (ticks 441 (playFrequency 440 1000 15 power_on)) = 0 \<and>
   idle (ticks 441 (playFrequency 440 1000 15 power_on))"
  using finishes_after_timeout_plus_one [of 440 1000 15 power_on 440] by (simp add: timeout_440)

text \<open>
  C3 as stated fails: the handler compares the timeout with 0 before it decrements, so
  after exactly \<open>N = 440\<close> executions the tone of \<open>playFrequency(440, 1000, 15)\<close> is
  still playing.
\<close>

theorem still_playing_after_timeout_ticks:
  "unat (buzzerTimeout (playFrequency 440 1000 15 power_on)) = 440 \<and>
   isPlaying (ticks 440 (playFrequency 440 1000 15 power_on)) \<noteq> 0"
proof -
  have "isPlaying (ticks 440 (playFrequency 440 1000 15 power_on)) =
      isPlaying (playFrequency 440 1000 15 power_on)"
    by (rule isPlaying_ticks_before) (simp add: timeout_440)
  then show ?thesis
    by (simp add: timeout_440 isPlaying_def buzzerFinished_playFrequency)
qed

subsection \<open>The finished flag and the idle configuration\<close>

lemma idle_init: "idle (init s)"
  by (simp add: idle_def init_def F_CPU_def TIMER1_CLK_1_def PB2_def bit_simps)

lemma buzzerFinished_playNote: "buzzerFinished (playNote note duration volume s) = 0"
  by (simp add: playNote_def Let_def buzzerFinished_playFrequency)

lemma idle_tick_running: "buzzerTimeout s \<noteq> 0 \<Longrightarrow> idle (TIMER1_OVF_vect s) = idle s"
  by (simp add: tick_running idle_def)

lemma buzzerFinished_tick_running:
  "buzzerTimeout s \<noteq> 0 \<Longrightarrow> buzzerFinished (TIMER1_OVF_vect s) = buzzerFinished s"
  by (simp add: tick_running)

lemma finished_idle_step:
  assumes "buzzerFinished s \<noteq> 0 \<longrightarrow> idle s"
  shows "buzzerFinished (step s e) \<noteq> 0 \<longrightarrow> idle (step s e)"
proof (cases e)
  case (PlayFrequency f d v)
  then show ?thesis by (simp add: buzzerFinished_playFrequency)
next
  case (PlayNote n d v)
  then show ?thesis by (simp add: buzzerFinished_playNote)
next
  case Tick
  show ?thesis
  proof (cases "buzzerTimeout s = 0")
    case True
    then show ?thesis using Tick by (simp add: idle_tick_expired)
  next
    case False
    then show ?thesis using Tick assms
      by (simp add: idle_tick_running buzzerFinished_tick_running)
  qed
qed

lemma finished_idle_run:
  "buzzerFinished s \<noteq> 0 \<longrightarrow> idle s \<Longrightarrow>
   buzzerFinished (run evs s) \<noteq> 0 \<longrightarrow> idle (run evs s)"
proof (induction evs rule: rev_induct)
  case Nil
  then show ?case by (simp add: run_def)
next
  case (snoc e evs)
  then have "buzzerFinished (run evs s) \<noteq> 0 \<longrightarrow> idle (run evs s)" by simp
  then have "buzzerFinished (step (run evs s) e) \<noteq> 0 \<longrightarrow> idle (step (run evs s) e)"
    by (rule finished_idle_step)
  then show ?case by (simp add: run_def)
qed

lemma timeout_440_1: "buzzerTimeout (playFrequency 440 1 15 s) = 0"
proof -
  have plain: "(440 :: u16) AND DIV_BY_10 = 0" by (simp add: DIV_BY_10_def)
  then have "freq_rounded 440 = 440"
    by (simp add: freq_rounded_def freq_clamped_def pf_round_def pf_multiplier_def
        pf_strip_def pf_clock_def)
  then show ?thesis by (simp add: buzzerTimeout_playFrequency pf_timeout_def)
qed

text \<open>
  C4. In every state reached from \<open>init\<close> by calls of \<open>playFrequency\<close> and
  \<open>playNote\<close> and executions of the handler, each taken as one step, a nonzero
  \<open>buzzerFinished\<close> means that the buzzer pin is an input and the timer has the idle
  configuration: undivided clock, top 20000 (clock/1000), duty cycle 0.
\<close>

theorem finished_implies_idle: "buzzerFinished (run evs (init s)) \<noteq> 0 \<longrightarrow> idle (run evs (init s))"
  by (rule finished_idle_run) (simp add: idle_init)

theorem finished_implies_idle_witness:
  "buzzerFinished (run [PlayFrequency 440 1 15, Tick] (init power_on)) \<noteq> 0 \<and>
   idle (run [PlayFrequency 440 1 15, Tick] (init power_on))"
proof -
  have "buzzerFinished (run [PlayFrequency 440 1 15, Tick] (init power_on)) \<noteq> 0"
    by (simp add: run_def tick_expired timeout_440_1)
  then show ?thesis using finished_implies_idle [of "[PlayFrequency 440 1 15, Tick]" power_on] by simp
qed

subsection \<open>The frequency range\<close>

lemma flagged_200: "(DIV_BY_10 + 200) AND DIV_BY_10 \<noteq> 0" "pf_strip (DIV_BY_10 + 200) = 200"
  by (simp_all add: pf_strip_def DIV_BY_10_def)

lemma flagged_0: "pf_strip DIV_BY_10 = 0"
  by (simp add: pf_strip_def DIV_BY_10_def)

text \<open>
  C2. The claim is that the frequency used for the counter top and the timeout is raised
  to 40 Hz when it is below. With the flag set the floor \<open>val\<close> is \<open>40 * 10\<close>
  converted to an \<open>unsigned char\<close>, which is 144: \<open>playFrequency(DIV_BY_10 | 200, 1000, 15)\<close>,
  a request for 20.0 Hz, keeps 200 tenths, computes the timeout from 20 Hz, and stores the
  top 125000 cut to 16 bits; a request for 0 Hz is raised to 144 tenths, not to 400.
\<close>

theorem tenths_floor_below_40_Hz:
  "pf_multiplier (DIV_BY_10 + 200) = 10 \<and>
   pf_strip (DIV_BY_10 + 200) = 200 \<and>
   freq_clamped (DIV_BY_10 + 200) = 200 \<and>
   freq_rounded (DIV_BY_10 + 200) = 20 \<and>
   OCR1A (playFrequency (DIV_BY_10 + 200) 1000 15 power_on) = 59464 \<and>
   buzzerTimeout (playFrequency (DIV_BY_10 + 200) 1000 15 power_on) = 20 \<and>
   freq_clamped DIV_BY_10 = 144"
proof -
  have m: "pf_multiplier (DIV_BY_10 + 200) = 10" "pf_multiplier DIV_BY_10 = 10"
    by (simp_all add: pf_multiplier_def DIV_BY_10_def)
  have c: "pf_clock 10 200 0 = (200, 59464, 2)" "pf_clock 10 0 0 = (144, 42539, 2)"
    by (simp_all add: pf_clock_def TIMER1_CLK_8_def)
  have r: "freq_rounded (DIV_BY_10 + 200) = 20"
    by (simp add: freq_rounded_def freq_clamped_def m flagged_200 c pf_round_def)
  show ?thesis
    by (simp add: m flagged_200 flagged_0 r freq_clamped_def c OCR1A_playFrequency
        buzzerTimeout_playFrequency pf_timeout_def)
qed

subsection \<open>Prescaler and counter top\<close>

lemma pf_clock_slow_plain:
  "40 \<le> x \<Longrightarrow> x \<le> 400 \<Longrightarrow>
   pf_clock 1 x t = (x, ucast ((2500000 :: u32) div ucast x), t OR ucast TIMER1_CLK_8)"
  by (simp add: pf_clock_def Let_def flip: not_le)

lemma pf_clock_slow_tenths:
  "400 \<le> x \<Longrightarrow> x \<le> 4000 \<Longrightarrow>
   pf_clock 10 x t = (x, ucast ((25000000 :: u32) div ucast x), t OR ucast TIMER1_CLK_8)"
proof -
  assume a: "400 \<le> x" "x \<le> 4000"
  then have "\<not> x < 144" by (simp add: word_le_nat_alt word_less_nat_alt)
  with a show ?thesis by (simp add: pf_clock_def Let_def flip: not_le)
qed

lemma slow_quotient_fits: "40 \<le> n \<Longrightarrow> 2500000 div n < (65536 :: nat)"
proof -
  assume "40 \<le> n"
  then have "2500000 div n \<le> 2500000 div 40" by (intro div_le_mono2) simp_all
  then show ?thesis by simp
qed

lemma slow_tenths_quotient_fits: "400 \<le> n \<Longrightarrow> 25000000 div n < (65536 :: nat)"
proof -
  assume "400 \<le> n"
  then have "25000000 div n \<le> 25000000 div 400" by (intro div_le_mono2) simp_all
  then show ?thesis by simp
qed

lemma prescaler_and_top_plain:
  assumes "f AND DIV_BY_10 = 0" and "40 \<le> unat f" and "unat f \<le> 10000"
  shows "unat f \<le> 400 \<Longrightarrow>
           TCCR1B (playFrequency f d v s) AND 0x07 = TIMER1_CLK_8 \<and>
           unat (OCR1A (playFrequency f d v s)) = 2500000 div unat f"
    and "400 < unat f \<Longrightarrow>
           TCCR1B (playFrequency f d v s) AND 0x07 = TIMER1_CLK_1 \<and>
           unat (OCR1A (playFrequency f d v s)) = 20000000 div unat f"
proof -
  from assms(1) have m: "pf_multiplier f = 1" "pf_strip f = f"
    by (simp_all add: pf_multiplier_def pf_strip_def)
  {
    assume le: "unat f \<le> 400"
    with assms(2) have w: "40 \<le> f" "f \<le> 400" by (simp_all add: word_le_nat_alt)
    show "TCCR1B (playFrequency f d v s) AND 0x07 = TIMER1_CLK_8 \<and>
           unat (OCR1A (playFrequency f d v s)) = 2500000 div unat f"
      using slow_quotient_fits [OF assms(2)]
      by (simp add: TCCR1B_playFrequency OCR1A_playFrequency m pf_clock_slow_plain [OF w]
          clock_select_bits unat_quotient) (simp add: TIMER1_CLK_8_def)
  next
    assume gt: "400 < unat f"
    then have w: "400 * ucast (1 :: u8) < f" by (simp add: word_less_nat_alt)
    have "\<not> 10000 < f" using assms(3) by (simp add: word_less_nat_alt)
    then show "TCCR1B (playFrequency f d v s) AND 0x07 = TIMER1_CLK_1 \<and>
           unat (OCR1A (playFrequency f d v s)) = 20000000 div unat f"
      using quotient_fits [OF gt]
      by (simp add: TCCR1B_playFrequency OCR1A_playFrequency m pf_clock_fast [OF w]
          clock_select_bits unat_quotient) (simp add: TIMER1_CLK_1_def)
  }
qed

lemma prescaler_and_top_tenths_low:
  assumes "f AND DIV_BY_10 \<noteq> 0" and "400 \<le> unat (pf_strip f)" and "unat (pf_strip f) \<le> 4000"
  shows "TCCR1B (playFrequency f d v s) AND 0x07 = TIMER1_CLK_8 \<and>
         unat (OCR1A (playFrequency f d v s)) = 25000000 div unat (pf_strip f)"
proof -
  from assms(1) have m: "pf_multiplier f = 10" by (simp add: pf_multiplier_def)
  from assms(2,3) have w: "400 \<le> pf_strip f" "pf_strip f \<le> 4000"
    by (simp_all add: word_le_nat_alt)
  show ?thesis
    using slow_tenths_quotient_fits [OF assms(2)]
    by (simp add: TCCR1B_playFrequency OCR1A_playFrequency m pf_clock_slow_tenths [OF w]
        clock_select_bits unat_quotient) (simp add: TIMER1_CLK_8_def)
qed

lemma flagged_5000: "(DIV_BY_10 + 5000) AND DIV_BY_10 \<noteq> 0" "pf_strip (DIV_BY_10 + 5000) = 5000"
  by (simp_all add: pf_strip_def DIV_BY_10_def)

text \<open>
  C5. The claim is that the counter top gives the requested frequency within the
  quantisation error, also for inputs in tenths of a Hz. \<open>playFrequency(DIV_BY_10 | 5000, 1000, 15)\<close>
  requests 500.0 Hz; the call selects the undivided clock with top 4000, which is
  20000000 / 4000 = 5000 Hz, ten times the request. The lemmas before the theorem show
  what holds: inputs in Hz from 40 to 10000, and inputs in tenths from 400 to 4000, get
  the prescaler and the top that the claim gives.
\<close>

theorem tenths_500_Hz_programs_5_kHz:
  "tenths_of (DIV_BY_10 + 5000) = 5000 \<and>
   TCCR1B (playFrequency (DIV_BY_10 + 5000) 1000 15 power_on) AND 0x07 = TIMER1_CLK_1 \<and>
   OCR1A (playFrequency (DIV_BY_10 + 5000) 1000 15 power_on) = 4000 \<and>
   10 * (20000000 div (1 * unat (OCR1A (playFrequency (DIV_BY_10 + 5000) 1000 15 power_on))))
     = 10 * tenths_of (DIV_BY_10 + 5000)"
proof -
  have m: "pf_multiplier (DIV_BY_10 + 5000) = 10"
    by (simp add: pf_multiplier_def flagged_5000)
  have c: "pf_clock 10 5000 t = (5000, 4000, t OR 1)" for t
    by (simp add: pf_clock_def TIMER1_CLK_1_def)
  have "(ucast (t OR 1 :: u16) :: u8) AND 0x07 = 1" if "t = ucast (x :: u8) AND 0xF8" for t x
    using clock_select_bits [of x 1] that by simp
  then show ?thesis
    by (simp add: m flagged_5000 c tenths_of_def OCR1A_playFrequency TCCR1B_playFrequency
        TIMER1_CLK_1_def)
qed

subsection \<open>Notes\<close>

text \<open>For a note that is not silent, \<open>playNote\<close> plays the code \<open>note_freq\<close> gives.\<close>

lemma playNote_audible:
  "n \<noteq> SILENT_NOTE \<Longrightarrow> v \<noteq> 0 \<Longrightarrow>
   playNote n d v s = playFrequency (note_freq n) d (if v > 15 then 15 else v) s"
  by (simp add: playNote_def Let_def)

lemma note_tenths_table:
  "map (\<lambda>k. tenths_of (note_freq (of_nat k))) [16..<112] = note_tenths"
  by (simp add: tenths_of_def note_freq_def note_table_def top_octave_def pf_multiplier_def
      pf_strip_def DIV_BY_10_def Let_def)

lemma nth_upt_16:
  assumes "16 \<le> k" and "k \<le> 111"
  shows "[16..<112] ! (k - 16) = k"
proof -
  from assms have "16 + (k - 16) < 112" by simp
  then have "[16..<112] ! (k - 16) = 16 + (k - 16)" by (rule nth_upt)
  also have "\<dots> = k" using assms by simp
  finally show ?thesis .
qed

lemma tenths_of_note:
  assumes "16 \<le> unat n" and "unat n \<le> 111"
  shows "tenths_of (note_freq n) = note_tenths ! (unat n - 16)"
proof -
  have "unat n - 16 < length [16..<112]" using assms by (simp only: length_upt)
  then have "map (\<lambda>k. tenths_of (note_freq (of_nat k))) [16..<112] ! (unat n - 16) =
      tenths_of (note_freq (of_nat ([16..<112] ! (unat n - 16))))"
    by (rule nth_map)
  also have "\<dots> = tenths_of (note_freq (of_nat (unat n)))"
    by (simp only: nth_upt_16 [OF assms])
  also have "\<dots> = tenths_of (note_freq n)" by simp
  finally show ?thesis by (simp only: note_tenths_table)
qed

lemma note_tenths_length: "length note_tenths = 96"
  by simp

lemma list_all2_take_drop_nth:
  assumes "list_all2 P (take a xs) (take a (drop b xs))" and "i < a" and "a + b \<le> length xs"
  shows "P (xs ! i) (xs ! (i + b))"
proof -
  from assms(2,3) have "i < length (take a xs)" by simp
  with assms(1) have "P (take a xs ! i) (take a (drop b xs) ! i)" by (rule list_all2_nthD)
  moreover have "take a xs ! i = xs ! i" using assms(2) by simp
  moreover have "take a (drop b xs) ! i = xs ! (i + b)"
    using assms(2,3) by (simp add: add.commute)
  ultimately show ?thesis by simp
qed

lemma note_tenths_adjacent:
  "list_all2 (\<le>) (take 95 note_tenths) (take 95 (drop 1 note_tenths))"
  by simp

lemma note_tenths_sorted: "sorted note_tenths"
  unfolding sorted_iff_nth_Suc
proof (intro allI impI)
  fix i
  assume "Suc i < length note_tenths"
  then have "i < 95" by (simp only: note_tenths_length)
  moreover have "95 + 1 \<le> length note_tenths" by (simp only: note_tenths_length)
  ultimately have "note_tenths ! i \<le> note_tenths ! (i + 1)"
    by (rule list_all2_take_drop_nth [OF note_tenths_adjacent])
  then show "note_tenths ! i \<le> note_tenths ! Suc i" by (simp only: Suc_eq_plus1)
qed

lemma note_tenths_doubling:
  "list_all2 (\<lambda>a b. \<bar>int b - 2 * int a\<bar> \<le> 10) (take 84 note_tenths)
     (take 84 (drop 12 note_tenths))"
  by simp

lemma note_tenths_exact:
  "list_all2 (\<lambda>a b. b = 2 * a) (take 12 note_tenths) (take 12 (drop 12 note_tenths))"
  by simp

lemma note_monotone:
  fixes m n :: u8
  assumes "16 \<le> m" and "m \<le> n" and "n \<le> 111"
  shows "tenths_of (note_freq m) \<le> tenths_of (note_freq n)"
proof -
  from assms have b: "16 \<le> unat m" "unat m \<le> unat n" "unat n \<le> 111"
    by (simp_all add: word_le_nat_alt)
  then have i: "unat m - 16 \<le> unat n - 16" "unat n - 16 < length note_tenths"
    by (simp_all only: note_tenths_length)
  have "note_tenths ! (unat m - 16) \<le> note_tenths ! (unat n - 16)"
    by (rule sorted_nth_mono [OF note_tenths_sorted i])
  moreover have "tenths_of (note_freq m) = note_tenths ! (unat m - 16)"
    using b by (intro tenths_of_note) simp_all
  moreover have "tenths_of (note_freq n) = note_tenths ! (unat n - 16)"
    using b by (intro tenths_of_note) simp_all
  ultimately show ?thesis by (simp only:)
qed

lemma unat_plus_12: "n \<le> 99 \<Longrightarrow> unat (n + 12) = unat n + 12" for n :: u8
proof -
  assume "n \<le> 99"
  then have "unat n + unat (12 :: u8) < 2 ^ LENGTH(8)" by (simp add: word_le_nat_alt)
  then show ?thesis by (simp add: unat_add_lem [THEN iffD1])
qed

lemma note_pair:
  fixes n :: u8
  assumes "16 \<le> n" and "n \<le> 99"
  shows "tenths_of (note_freq n) = note_tenths ! (unat n - 16)"
    and "tenths_of (note_freq (n + 12)) = note_tenths ! (unat n - 16 + 12)"
proof -
  from assms have b: "16 \<le> unat n" "unat n \<le> 99" by (simp_all add: word_le_nat_alt)
  have p: "unat (n + 12) = unat n + 12" using assms(2) by (rule unat_plus_12)
  show "tenths_of (note_freq n) = note_tenths ! (unat n - 16)"
    using b by (intro tenths_of_note) simp_all
  have q: "16 \<le> unat (n + 12)" "unat (n + 12) \<le> 111" using b p by simp_all
  have "tenths_of (note_freq (n + 12)) = note_tenths ! (unat (n + 12) - 16)"
    by (rule tenths_of_note [OF q])
  moreover have "unat (n + 12) - 16 = unat n - 16 + 12" using b by (simp only: p)
  ultimately show "tenths_of (note_freq (n + 12)) = note_tenths ! (unat n - 16 + 12)"
    by (simp only:)
qed

lemma note_doubling:
  fixes n :: u8
  assumes "16 \<le> n" and "n \<le> 99"
  shows "\<bar>int (tenths_of (note_freq (n + 12))) - 2 * int (tenths_of (note_freq n))\<bar> \<le> 10"
proof -
  from assms have "unat n - 16 < 84" by (simp add: word_le_nat_alt)
  moreover have "84 + 12 \<le> length note_tenths" by (simp only: note_tenths_length)
  ultimately have
    "\<bar>int (note_tenths ! (unat n - 16 + 12)) - 2 * int (note_tenths ! (unat n - 16))\<bar> \<le> 10"
    by (rule list_all2_take_drop_nth [OF note_tenths_doubling])
  then show ?thesis by (simp only: note_pair [OF assms])
qed

lemma note_doubling_exact:
  fixes n :: u8
  assumes "16 \<le> n" and "n \<le> 27"
  shows "tenths_of (note_freq (n + 12)) = 2 * tenths_of (note_freq n)"
proof -
  from assms(2) have le: "n \<le> 99" by (simp add: word_le_nat_alt)
  note note_tenths_exact
  moreover from assms have "unat n - 16 < 12" by (simp add: word_le_nat_alt)
  moreover have "12 + 12 \<le> length note_tenths" by (simp only: note_tenths_length)
  ultimately have "note_tenths ! (unat n - 16 + 12) = 2 * note_tenths ! (unat n - 16)"
    by (rule list_all2_take_drop_nth)
  then show ?thesis by (simp only: note_pair [OF assms(1) le])
qed

lemma note_16_28: "note_freq 16 = DIV_BY_10 + 412" "note_freq 28 = DIV_BY_10 + 824"
  by (simp_all add: note_freq_def note_table_def DIV_BY_10_def)

text \<open>
  C8. For notes \<open>m \<le> n\<close> from 16 to 111 the true frequency of the code computed for
  \<open>m\<close> is at most the one computed for \<open>n\<close>. For a note \<open>k\<close> from 16 to 99 the
  frequency of \<open>k + 12\<close> is twice the frequency of \<open>k\<close> up to rounding: the two differ
  by at most 10 tenths, that is 1 Hz. Note 16 gives 412 tenths with the flag set, and note
  28 gives 824 tenths with the flag set.
\<close>

theorem note_frequencies:
  "(16 \<le> m \<and> m \<le> n \<and> n \<le> 111 \<longrightarrow>
      tenths_of (note_freq m) \<le> tenths_of (note_freq n)) \<and>
   (16 \<le> k \<and> k \<le> 99 \<longrightarrow>
      \<bar>int (tenths_of (note_freq (k + 12))) - 2 * int (tenths_of (note_freq k))\<bar> \<le> 10) \<and>
   note_freq 16 = DIV_BY_10 + 412 \<and> tenths_of (note_freq 16) = 412 \<and>
   note_freq 28 = DIV_BY_10 + 824 \<and> tenths_of (note_freq 28) = 824"
proof -
  have "tenths_of (DIV_BY_10 + 412) = 412" "tenths_of (DIV_BY_10 + 824) = 824"
    by (simp_all add: tenths_of_def pf_multiplier_def pf_strip_def DIV_BY_10_def)
  then show ?thesis
    using note_monotone [of m n] note_doubling [of k] by (simp only: note_16_28) blast
qed

theorem note_frequencies_witness:
  "(16 :: u8) \<le> 16 \<and> (16 :: u8) \<le> 28 \<and> (28 :: u8) \<le> 111 \<and> (16 :: u8) \<le> 99 \<and>
   tenths_of (note_freq 16) \<le> tenths_of (note_freq 28) \<and>
   \<bar>int (tenths_of (note_freq (16 + 12))) - 2 * int (tenths_of (note_freq 16))\<bar> \<le> 10"
proof -
  have h: "(16 :: u8) \<le> 16" "(16 :: u8) \<le> 28" "(28 :: u8) \<le> 111" "(16 :: u8) \<le> 99"
    by simp_all
  show ?thesis using h note_frequencies [of 16 28 16] by blast
qed

end
